theory Spec2Isabelle
  imports Main
begin

section \<open>The native dialog element\<close>

text \<open>
  The component of \<^verbatim>\<open>ModalDialog.tsx\<close> drives one native \<^verbatim>\<open>HTMLDialogElement\<close>.
  The element is the platform's, not the repository's; it is modelled here by the
  interface the component consumes: a boolean open status, \<^verbatim>\<open>showModal()\<close> (which
  throws when the element is already open, as the comment above
  \<^verbatim>\<open>safelyOpenDialogAsModal\<close> says), \<^verbatim>\<open>close()\<close> (which does nothing on a closed
  element and otherwise closes it and fires one \<^verbatim>\<open>close\<close> event), a list of
  registered event listeners, and the cancel action of the Escape key, which closes
  the element unless the \<^verbatim>\<open>keydown\<close> event had its default prevented. The user agent
  recognises the Escape key by the key the event reports (\<^verbatim>\<open>event.key\<close>), whatever
  physical key (\<^verbatim>\<open>event.code\<close>) produced it.

  \<open>dlg_open\<close> is the \<^verbatim>\<open>open\<close> property of the element.
  The element records every native call made on it (\<open>calls\<close>) and counts the
  \<^verbatim>\<open>close\<close> events it has fired (\<open>closeEvents\<close>), so that theorems can speak about
  what was invoked.
\<close>

text \<open>
  What a call can throw: the element's \<^verbatim>\<open>InvalidStateError\<close>, and the \<^verbatim>\<open>TypeError\<close> of
  reading a property of \<^verbatim>\<open>null\<close> or calling a method on it.
\<close>

datatype dom_error = InvalidStateError | TypeError

text \<open>
  The two functions that \<^verbatim>\<open>setIsOpen\<close> can denote: the ancestor's setter passed as
  the \<^verbatim>\<open>setIsOpen\<close> prop (in \<^verbatim>\<open>App.tsx\<close> the setter of \<^verbatim>\<open>useState(false)\<close>), and the
  component's own \<^verbatim>\<open>setUncontrolledOpen\<close>.
\<close>

datatype setter = SetControlledOpen | SetUncontrolledOpen

text \<open>
  Listener callbacks are closures. \<open>LightDismiss g s\<close> and \<open>CloseOnEscape g s\<close> are
  the functions \<^verbatim>\<open>lightDismiss\<close> and \<^verbatim>\<open>closeOnEscape\<close> created by run number \<open>g\<close> of
  the listener effect, closing over \<^verbatim>\<open>setIsOpen = s\<close>; \<open>External n\<close> is a callback of
  the ancestor, registered through the ref.
\<close>

datatype callback = LightDismiss nat setter | CloseOnEscape nat setter | External nat

text \<open>A registration is identified by event type, callback and capture flag.\<close>

type_synonym registration = "string \<times> callback \<times> bool"

datatype native_call = ShowModalCall | CloseCall

record dialog =
  nodeId :: nat
  dlg_open :: bool
  listeners :: "registration list"
  calls :: "native_call list"
  closeEvents :: nat

definition dialog_showModal :: "dialog \<Rightarrow> dom_error + dialog" where
  "dialog_showModal d =
     (if dlg_open d then Inl InvalidStateError
      else Inr (d\<lparr>dlg_open := True, calls := calls d @ [ShowModalCall]\<rparr>))"

definition dialog_close :: "dialog \<Rightarrow> dialog" where
  "dialog_close d =
     (if dlg_open d
      then d\<lparr>dlg_open := False, calls := calls d @ [CloseCall],
             closeEvents := Suc (closeEvents d)\<rparr>
      else d\<lparr>calls := calls d @ [CloseCall]\<rparr>)"

text \<open>The user agent's own dismissal (the cancel action): no script call is made.\<close>

definition dialog_cancel :: "dialog \<Rightarrow> dialog" where
  "dialog_cancel d =
     (if dlg_open d then d\<lparr>dlg_open := False, closeEvents := Suc (closeEvents d)\<rparr>
      else d)"

text \<open>
  The third argument of \<^verbatim>\<open>addEventListener\<close>/\<^verbatim>\<open>removeEventListener\<close> is optional; only
  its capture flag takes part in the identity of a registration.
\<close>

definition capture_of :: "bool option \<Rightarrow> bool" where
  "capture_of options = (case options of None \<Rightarrow> False | Some c \<Rightarrow> c)"

definition dialog_addEventListener ::
  "string \<Rightarrow> callback \<Rightarrow> bool option \<Rightarrow> dialog \<Rightarrow> dialog" where
  "dialog_addEventListener name cb options d =
     (if (name, cb, capture_of options) \<in> set (listeners d) then d
      else d\<lparr>listeners := listeners d @ [(name, cb, capture_of options)]\<rparr>)"

definition dialog_removeEventListener ::
  "string \<Rightarrow> callback \<Rightarrow> bool option \<Rightarrow> dialog \<Rightarrow> dialog" where
  "dialog_removeEventListener name cb options d =
     d\<lparr>listeners := remove1 (name, cb, capture_of options) (listeners d)\<rparr>"

subsection \<open>Events\<close>

text \<open>
  An event target is a node: an element with its identity and node name, or a node
  that is not an element.
\<close>

datatype node = ElementNode nat string | OtherNode nat

text \<open>
  For a keyboard event \<open>key\<close> is \<^verbatim>\<open>event.key\<close>, the key pressed, and \<open>code\<close> is
  \<^verbatim>\<open>event.code\<close>, the physical key: they differ on a remapped keyboard (\<^verbatim>\<open>key\<close>
  \<^verbatim>\<open>Escape\<close> with \<^verbatim>\<open>code\<close> \<^verbatim>\<open>CapsLock\<close>) and on virtual keyboards (an empty \<^verbatim>\<open>code\<close>).
\<close>

record event =
  ev_type :: string
  target :: node
  key :: string
  code :: string
  defaultPrevented :: bool
  propagationStopped :: bool

definition click :: "node \<Rightarrow> event" where
  "click t = \<lparr>ev_type = ''click'', target = t, key = '''', code = '''',
              defaultPrevented = False, propagationStopped = False\<rparr>"

definition keydown :: "node \<Rightarrow> string \<Rightarrow> string \<Rightarrow> event" where
  "keydown t k c = \<lparr>ev_type = ''keydown'', target = t, key = k, code = c,
                    defaultPrevented = False, propagationStopped = False\<rparr>"

text \<open>The dialog element as an event target.\<close>

definition self_node :: "dialog \<Rightarrow> node" where
  "self_node d = ElementNode (nodeId d) ''DIALOG''"

section \<open>The component\<close>

subsection \<open>A handle that may be null\<close>

text \<open>
  \<^verbatim>\<open>dialogRef.current\<close> has type \<^verbatim>\<open>HTMLDialogElement | null\<close>. Reading a property of
  \<^verbatim>\<open>null\<close> or calling a method on it throws a \<^verbatim>\<open>TypeError\<close>: \<open>read_open\<close> is
  \<^verbatim>\<open>dialog.open\<close> and \<open>call_method m\<close> is \<^verbatim>\<open>dialog.m(..)\<close>. Optional chaining,
  \<^verbatim>\<open>dialog?.m(..)\<close>, makes the call only on a handle that is not null.
\<close>

definition read_open :: "dialog option \<Rightarrow> dom_error + bool" where
  "read_open dialog = (case dialog of None \<Rightarrow> Inl TypeError | Some d \<Rightarrow> Inr (dlg_open d))"

definition call_method ::
  "(dialog \<Rightarrow> dom_error + dialog) \<Rightarrow> dialog option \<Rightarrow> dom_error + dialog option" where
  "call_method m dialog =
     (case dialog of
        None \<Rightarrow> Inl TypeError
      | Some d \<Rightarrow> (case m d of Inl e \<Rightarrow> Inl e | Inr d' \<Rightarrow> Inr (Some d')))"

definition optional_call ::
  "(dialog \<Rightarrow> dom_error + dialog) \<Rightarrow> dialog option \<Rightarrow> dom_error + dialog option" where
  "optional_call m dialog =
     (case dialog of None \<Rightarrow> Inr None | Some d \<Rightarrow> call_method m dialog)"

subsection \<open>Opening safely, and the effect that syncs the element with the state\<close>

text \<open>
  \<^verbatim>\<open>safelyOpenDialogAsModal\<close>: \<^verbatim>\<open>if (dialog && !dialog.open) dialog.showModal()\<close>. A null
  \<^verbatim>\<open>dialog\<close> is falsy, so \<^verbatim>\<open>&&\<close> does not evaluate \<^verbatim>\<open>dialog.open\<close> and the body is skipped.
\<close>

definition safelyOpenDialogAsModal :: "dialog option \<Rightarrow> dom_error + dialog option" where
  "safelyOpenDialogAsModal dialog =
     (case dialog of
        None \<Rightarrow> Inr None
      | Some d \<Rightarrow>
          (case read_open dialog of
             Inl e \<Rightarrow> Inl e
           | Inr b \<Rightarrow> if \<not> b then call_method dialog_showModal dialog else Inr dialog))"

text \<open>\<^verbatim>\<open>dialog?.close()\<close>\<close>

definition close_opt :: "dialog option \<Rightarrow> dom_error + dialog option" where
  "close_opt dialog = optional_call (\<lambda>d. Inr (dialog_close d)) dialog"

text \<open>The body of the first \<^verbatim>\<open>useEffect\<close> and the cleanup function it returns.\<close>

definition syncEffect :: "bool \<Rightarrow> dialog option \<Rightarrow> dom_error + dialog option" where
  "syncEffect isOpen dialog =
     (if isOpen then safelyOpenDialogAsModal dialog else close_opt dialog)"

definition syncCleanup :: "dialog option \<Rightarrow> dom_error + dialog option" where
  "syncCleanup dialog = close_opt dialog"

subsection \<open>The listeners\<close>

text \<open>
  A listener returns the event as it leaves it, and the calls it made to
  \<^verbatim>\<open>setIsOpen\<close> (which setter, with which value).
\<close>

type_synonym handled = "event \<times> (setter \<times> bool) list"

definition handleClose :: "setter \<Rightarrow> event \<Rightarrow> handled" where
  "handleClose setIsOpen ev =
     (ev\<lparr>defaultPrevented := True, propagationStopped := True\<rparr>, [(setIsOpen, False)])"

definition lightDismiss :: "setter \<Rightarrow> event \<Rightarrow> handled" where
  "lightDismiss setIsOpen ev =
     (case target ev of
        ElementNode i name \<Rightarrow>
          if name = ''DIALOG'' then handleClose setIsOpen ev else (ev, [])
      | OtherNode i \<Rightarrow> (ev, []))"

definition closeOnEscape :: "setter \<Rightarrow> event \<Rightarrow> handled" where
  "closeOnEscape setIsOpen ev =
     (if code ev = ''Escape'' then handleClose setIsOpen ev else (ev, []))"

text \<open>\<^verbatim>\<open>dialog?.addEventListener(..)\<close> and \<^verbatim>\<open>dialog?.removeEventListener(..)\<close>\<close>

definition add_opt ::
  "string \<Rightarrow> callback \<Rightarrow> bool option \<Rightarrow> dialog option \<Rightarrow> dom_error + dialog option" where
  "add_opt name cb options dialog =
     optional_call (\<lambda>d. Inr (dialog_addEventListener name cb options d)) dialog"

definition remove_opt ::
  "string \<Rightarrow> callback \<Rightarrow> bool option \<Rightarrow> dialog option \<Rightarrow> dom_error + dialog option" where
  "remove_opt name cb options dialog =
     optional_call (\<lambda>d. Inr (dialog_removeEventListener name cb options d)) dialog"

text \<open>
  The body of the second \<^verbatim>\<open>useEffect\<close>, run number \<open>g\<close>, and its cleanup. Both close
  over the values of \<^verbatim>\<open>shouldLightDismiss\<close> and \<^verbatim>\<open>setIsOpen\<close> of the render that
  created them.
\<close>

definition listenerEffect ::
  "nat \<Rightarrow> bool \<Rightarrow> setter \<Rightarrow> dialog option \<Rightarrow> dom_error + dialog option" where
  "listenerEffect g shouldLightDismiss setIsOpen dialog =
     (case (if shouldLightDismiss
            then add_opt ''click'' (LightDismiss g setIsOpen) None dialog
            else Inr dialog) of
        Inl e \<Rightarrow> Inl e
      | Inr dialog1 \<Rightarrow> add_opt ''keydown'' (CloseOnEscape g setIsOpen) None dialog1)"

definition listenerCleanup ::
  "nat \<Rightarrow> bool \<Rightarrow> setter \<Rightarrow> dialog option \<Rightarrow> dom_error + dialog option" where
  "listenerCleanup g shouldLightDismiss setIsOpen dialog =
     (case (if shouldLightDismiss
            then remove_opt ''click'' (LightDismiss g setIsOpen) None dialog
            else Inr dialog) of
        Inl e \<Rightarrow> Inl e
      | Inr dialog1 \<Rightarrow> remove_opt ''keydown'' (CloseOnEscape g setIsOpen) None dialog1)"

subsection \<open>Props and the mounted instance\<close>

text \<open>
  The props of \<^verbatim>\<open>ModalDialog\<close>. \<open>p_isOpen\<close> is the \<^verbatim>\<open>isOpen\<close> prop; the type
  \<^verbatim>\<open>ModalDialogIsOpenProps\<close> supplies \<^verbatim>\<open>setIsOpen\<close> exactly when \<^verbatim>\<open>isOpen\<close> is supplied,
  so it has no field of its own. \<open>p_onClose\<close> says whether an \<^verbatim>\<open>onClose\<close> callback is
  supplied. The \<^verbatim>\<open>aria-*\<close> attributes and the children are handed to the element as
  they are and take no part in what follows; the assertion on the accessible name,
  which runs outside production builds only, is left out.
\<close>

record props =
  p_isOpen :: "bool option"
  p_shouldLightDismiss :: "bool option"
  p_initialOpen :: "bool option"
  p_onClose :: bool

text \<open>
  A mounted instance together with the state of its ancestor. In controlled mode
  the ancestor owns the state and passes it down, as \<^verbatim>\<open>App\<close> does with
  \<^verbatim>\<open>isOpen={isOpen} setIsOpen={setIsOpen}\<close>.

  \<open>dialogRef\<close> is \<^verbatim>\<open>dialogRef.current\<close>, with the element it refers to; while the
  instance is mounted the ref does not change, so the local \<^verbatim>\<open>dialog\<close> captured by an
  effect and by its cleanup is this element. \<open>syncDeps\<close> is the dependency
  \<^verbatim>\<open>[isOpen]\<close> of the last run of the first effect, \<open>listenerDeps\<close> the run number
  and the dependencies \<^verbatim>\<open>[shouldLightDismiss, setIsOpen]\<close> of the last run of the
  second, \<open>handle\<close> the \<^verbatim>\<open>isOpen\<close> and \<^verbatim>\<open>setIsOpen\<close> the object given to the forwarded
  ref closes over; each is \<open>None\<close> before the first commit.
\<close>

record world =
  controlled :: bool
  ancestorOpen :: bool
  shouldLightDismiss :: "bool option"
  onClose :: bool
  uncontrolledOpen :: bool
  dialogRef :: "dialog option"
  syncDeps :: "bool option"
  listenerDeps :: "(nat \<times> bool \<times> setter) option"
  handle :: "(bool \<times> setter) option"
  effectRuns :: nat

text \<open>What a render computes from props and state.\<close>

definition controlledOpen :: "world \<Rightarrow> bool option" where
  "controlledOpen w = (if controlled w then Some (ancestorOpen w) else None)"

definition setControlledOpen :: "world \<Rightarrow> setter option" where
  "setControlledOpen w = (if controlled w then Some SetControlledOpen else None)"

text \<open>\<^verbatim>\<open>const isOpen = controlledOpen ?? uncontrolledOpen\<close>\<close>

definition isOpen :: "world \<Rightarrow> bool" where
  "isOpen w = (case controlledOpen w of Some b \<Rightarrow> b | None \<Rightarrow> uncontrolledOpen w)"

text \<open>\<^verbatim>\<open>const setIsOpen = setControlledOpen ?? setUncontrolledOpen\<close>\<close>

definition setIsOpen :: "world \<Rightarrow> setter" where
  "setIsOpen w = (case setControlledOpen w of Some s \<Rightarrow> s | None \<Rightarrow> SetUncontrolledOpen)"

text \<open>The destructuring default \<^verbatim>\<open>shouldLightDismiss = true\<close>.\<close>

definition lightDismissEnabled :: "world \<Rightarrow> bool" where
  "lightDismissEnabled w = (case shouldLightDismiss w of None \<Rightarrow> True | Some b \<Rightarrow> b)"

text \<open>Calling a setter with a value.\<close>

fun call_setter :: "world \<Rightarrow> setter \<times> bool \<Rightarrow> world" where
  "call_setter w (SetControlledOpen, v) = w\<lparr>ancestorOpen := v\<rparr>"
| "call_setter w (SetUncontrolledOpen, v) = w\<lparr>uncontrolledOpen := v\<rparr>"

subsection \<open>Committing a render\<close>

text \<open>
  After a render the host runs, for every effect whose dependencies changed, the
  cleanup of its previous run and then the effect; all cleanups come before all
  effects. The object of the forwarded ref is rebuilt from the current
  \<^verbatim>\<open>isOpen\<close> and \<^verbatim>\<open>setIsOpen\<close>.
\<close>

definition syncChanged :: "world \<Rightarrow> bool" where
  "syncChanged w = (syncDeps w \<noteq> Some (isOpen w))"

definition listenersChanged :: "world \<Rightarrow> bool" where
  "listenersChanged w =
     (case listenerDeps w of
        None \<Rightarrow> True
      | Some (g, l, s) \<Rightarrow> (l, s) \<noteq> (lightDismissEnabled w, setIsOpen w))"

definition run_cleanups :: "world \<Rightarrow> dom_error + dialog option" where
  "run_cleanups w =
     (case (if syncChanged w \<and> syncDeps w \<noteq> None then syncCleanup (dialogRef w)
            else Inr (dialogRef w)) of
        Inl e \<Rightarrow> Inl e
      | Inr d1 \<Rightarrow>
          (case listenerDeps w of
             None \<Rightarrow> Inr d1
           | Some (g, l, s) \<Rightarrow>
               if listenersChanged w then listenerCleanup g l s d1 else Inr d1))"

definition commit :: "world \<Rightarrow> dom_error + world" where
  "commit w =
     (case run_cleanups w of
        Inl e \<Rightarrow> Inl e
      | Inr d2 \<Rightarrow>
          (case (if syncChanged w then syncEffect (isOpen w) d2 else Inr d2) of
             Inl e \<Rightarrow> Inl e
           | Inr d3 \<Rightarrow>
               if listenersChanged w
               then (case listenerEffect (effectRuns w) (lightDismissEnabled w)
                            (setIsOpen w) d3 of
                       Inl e \<Rightarrow> Inl e
                     | Inr d4 \<Rightarrow>
                         Inr (w\<lparr>dialogRef := d4,
                                syncDeps := Some (isOpen w),
                                listenerDeps :=
                                  Some (effectRuns w, lightDismissEnabled w, setIsOpen w),
                                handle := Some (isOpen w, setIsOpen w),
                                effectRuns := Suc (effectRuns w)\<rparr>))
               else Inr (w\<lparr>dialogRef := d3,
                           syncDeps := Some (isOpen w),
                           handle := Some (isOpen w, setIsOpen w)\<rparr>)))"

text \<open>The element a fresh mount renders.\<close>

definition new_dialog :: dialog where
  "new_dialog = \<lparr>nodeId = 0, dlg_open = False, listeners = [], calls = [], closeEvents = 0\<rparr>"

text \<open>
  The first render: \<^verbatim>\<open>useState(initialOpen)\<close> with the default \<^verbatim>\<open>initialOpen = false\<close>,
  \<^verbatim>\<open>useRef(null)\<close> filled with the element \<open>h\<close> when the element is attached.
\<close>

definition first_render :: "props \<Rightarrow> dialog option \<Rightarrow> world" where
  "first_render p h =
     \<lparr>controlled = (p_isOpen p \<noteq> None),
      ancestorOpen = (case p_isOpen p of None \<Rightarrow> False | Some b \<Rightarrow> b),
      shouldLightDismiss = p_shouldLightDismiss p,
      onClose = p_onClose p,
      uncontrolledOpen = (case p_initialOpen p of None \<Rightarrow> False | Some b \<Rightarrow> b),
      dialogRef = h,
      syncDeps = None,
      listenerDeps = None,
      handle = None,
      effectRuns = 0\<rparr>"

definition mount :: "props \<Rightarrow> dom_error + world" where
  "mount p = commit (first_render p (Some new_dialog))"

text \<open>Unmounting runs the cleanup of every effect.\<close>

definition unmount :: "world \<Rightarrow> dom_error + world" where
  "unmount w =
     (case (if syncDeps w \<noteq> None then syncCleanup (dialogRef w) else Inr (dialogRef w)) of
        Inl e \<Rightarrow> Inl e
      | Inr d1 \<Rightarrow>
          (case (case listenerDeps w of
                   None \<Rightarrow> Inr d1
                 | Some (g, l, s) \<Rightarrow> listenerCleanup g l s d1) of
             Inl e \<Rightarrow> Inl e
           | Inr d2 \<Rightarrow>
               Inr (w\<lparr>dialogRef := d2, syncDeps := None, listenerDeps := None,
                      handle := None\<rparr>)))"

subsection \<open>The object given to the forwarded ref\<close>

text \<open>
  \<^verbatim>\<open>close()\<close> and \<^verbatim>\<open>showModal()\<close> call the captured \<^verbatim>\<open>setIsOpen\<close>, \<^verbatim>\<open>isOpen()\<close> returns the
  captured \<^verbatim>\<open>isOpen\<close>; the two listener operations go to \<^verbatim>\<open>dialogRef.current\<close>. A call
  through a ref that holds no object (\<^verbatim>\<open>dialogRef.current?.showModal()\<close> in \<^verbatim>\<open>App\<close>)
  does nothing.
\<close>

definition ref_close :: "world \<Rightarrow> world" where
  "ref_close w = (case handle w of None \<Rightarrow> w | Some (b, s) \<Rightarrow> call_setter w (s, False))"

definition ref_showModal :: "world \<Rightarrow> world" where
  "ref_showModal w = (case handle w of None \<Rightarrow> w | Some (b, s) \<Rightarrow> call_setter w (s, True))"

definition ref_isOpen :: "world \<Rightarrow> bool option" where
  "ref_isOpen w = (case handle w of None \<Rightarrow> None | Some (b, s) \<Rightarrow> Some b)"

definition ref_addEventListener ::
  "string \<Rightarrow> callback \<Rightarrow> bool option \<Rightarrow> world \<Rightarrow> dom_error + world" where
  "ref_addEventListener name cb options w =
     (case handle w of
        None \<Rightarrow> Inr w
      | Some (b, s) \<Rightarrow>
          (case add_opt name cb options (dialogRef w) of
             Inl e \<Rightarrow> Inl e
           | Inr d \<Rightarrow> Inr (w\<lparr>dialogRef := d\<rparr>)))"

definition ref_removeEventListener ::
  "string \<Rightarrow> callback \<Rightarrow> bool option \<Rightarrow> world \<Rightarrow> dom_error + world" where
  "ref_removeEventListener name cb options w =
     (case handle w of
        None \<Rightarrow> Inr w
      | Some (b, s) \<Rightarrow>
          (case remove_opt name cb options (dialogRef w) of
             Inl e \<Rightarrow> Inl e
           | Inr d \<Rightarrow> Inr (w\<lparr>dialogRef := d\<rparr>)))"

subsection \<open>Dispatching an event to the element\<close>

fun run_callback :: "callback \<Rightarrow> event \<Rightarrow> handled" where
  "run_callback (LightDismiss g s) ev = lightDismiss s ev"
| "run_callback (CloseOnEscape g s) ev = closeOnEscape s ev"
| "run_callback (External n) ev = (ev, [])"

text \<open>
  Every listener registered for the type of the event runs, in registration order.
  A callback of the ancestor only observes.
\<close>

fun dispatch :: "registration list \<Rightarrow> event \<Rightarrow> handled" where
  "dispatch [] ev = (ev, [])"
| "dispatch ((name, cb, cap) # rs) ev =
     (if name = ev_type ev
      then (case run_callback cb ev of
              (ev1, c1) \<Rightarrow> (case dispatch rs ev1 of (ev2, c2) \<Rightarrow> (ev2, c1 @ c2)))
      else dispatch rs ev)"

text \<open>
  The default action of the user agent once the listeners have run: a press of the
  Escape key (\<^verbatim>\<open>event.key\<close>) cancels (closes) the dialog, unless the default was
  prevented. A click has none.
\<close>

definition default_action :: "event \<Rightarrow> dialog \<Rightarrow> dialog" where
  "default_action ev d =
     (if ev_type ev = ''keydown'' \<and> key ev = ''Escape'' \<and> \<not> defaultPrevented ev
      then dialog_cancel d else d)"

definition deliver :: "event \<Rightarrow> world \<Rightarrow> world" where
  "deliver ev w =
     (case dialogRef w of
        None \<Rightarrow> w
      | Some d \<Rightarrow>
          (case dispatch (listeners d) ev of
             (ev', cs) \<Rightarrow> foldl call_setter (w\<lparr>dialogRef := Some (default_action ev' d)\<rparr>) cs))"

subsection \<open>Requests and sessions\<close>

text \<open>
  What can happen to a mounted instance: the ancestor sets its own state
  (\<^verbatim>\<open>openControlled\<close>, \<^verbatim>\<open>closeControlled\<close> in \<^verbatim>\<open>App\<close>), calls the ref, re-renders with
  another \<^verbatim>\<open>shouldLightDismiss\<close>; the user clicks or presses a key (\<open>Keydown t k c\<close>:
  target, \<^verbatim>\<open>key\<close>, \<^verbatim>\<open>code\<close>). Each request is followed by a render and its commit.
\<close>

datatype request =
    AncestorSetIsOpen bool
  | RefShowModal
  | RefClose
  | RefAddEventListener string nat "bool option"
  | RefRemoveEventListener string nat "bool option"
  | SetShouldLightDismiss "bool option"
  | Click node
  | Keydown node string string

fun perform :: "world \<Rightarrow> request \<Rightarrow> dom_error + world" where
  "perform w (AncestorSetIsOpen v) = Inr (call_setter w (SetControlledOpen, v))"
| "perform w RefShowModal = Inr (ref_showModal w)"
| "perform w RefClose = Inr (ref_close w)"
| "perform w (RefAddEventListener name n options) =
     ref_addEventListener name (External n) options w"
| "perform w (RefRemoveEventListener name n options) =
     ref_removeEventListener name (External n) options w"
| "perform w (SetShouldLightDismiss v) = Inr (w\<lparr>shouldLightDismiss := v\<rparr>)"
| "perform w (Click t) = Inr (deliver (click t) w)"
| "perform w (Keydown t k c) = Inr (deliver (keydown t k c) w)"

definition step :: "world \<Rightarrow> request \<Rightarrow> dom_error + world" where
  "step w r = (case perform w r of Inl e \<Rightarrow> Inl e | Inr w1 \<Rightarrow> commit w1)"

fun run :: "world \<Rightarrow> request list \<Rightarrow> dom_error + world" where
  "run w [] = Inr w"
| "run w (r # rs) = (case step w r of Inl e \<Rightarrow> Inl e | Inr w' \<Rightarrow> run w' rs)"

definition session :: "props \<Rightarrow> request list \<Rightarrow> dom_error + world" where
  "session p rs = (case mount p of Inl e \<Rightarrow> Inl e | Inr w \<Rightarrow> run w rs)"

text \<open>
  \<^verbatim>\<open>onClose={onClose}\<close> on the element of a mounted instance: the callback, when
  supplied, runs once for every \<^verbatim>\<open>close\<close> event the element fires.
\<close>

definition onCloseCalls :: "world \<Rightarrow> nat" where
  "onCloseCalls w =
     (case dialogRef w of
        None \<Rightarrow> 0
      | Some d \<Rightarrow> if onClose w then closeEvents d else 0)"

definition nativeOpen :: "world \<Rightarrow> bool option" where
  "nativeOpen w = (case dialogRef w of None \<Rightarrow> None | Some d \<Rightarrow> Some (dlg_open d))"

definition showModalCalls :: "world \<Rightarrow> nat" where
  "showModalCalls w =
     (case dialogRef w of None \<Rightarrow> 0 | Some d \<Rightarrow> count_list (calls d) ShowModalCall)"

definition closeCalls :: "world \<Rightarrow> nat" where
  "closeCalls w =
     (case dialogRef w of None \<Rightarrow> 0 | Some d \<Rightarrow> count_list (calls d) CloseCall)"

text \<open>The name of a node, when it is an element.\<close>

fun nodeName :: "node \<Rightarrow> string option" where
  "nodeName (ElementNode i name) = Some name"
| "nodeName (OtherNode i) = None"

text \<open>
  The props of the two instances that \<^verbatim>\<open>App\<close> renders: the controlled one
  (\<^verbatim>\<open>isOpen={isOpen}\<close> from \<^verbatim>\<open>useState(false)\<close>, with \<^verbatim>\<open>onClose\<close>) and the
  uncontrolled one (a ref only).
\<close>

definition app_controlled :: props where
  "app_controlled =
     \<lparr>p_isOpen = Some False, p_shouldLightDismiss = None, p_initialOpen = None,
      p_onClose = True\<rparr>"

definition app_uncontrolled :: props where
  "app_uncontrolled =
     \<lparr>p_isOpen = None, p_shouldLightDismiss = None, p_initialOpen = None,
      p_onClose = False\<rparr>"

text \<open>The state a session ends in, as an observer sees it.\<close>

definition openAfter :: "props \<Rightarrow> request list \<Rightarrow> bool option" where
  "openAfter p rs = (case session p rs of Inl e \<Rightarrow> None | Inr w \<Rightarrow> Some (isOpen w))"

definition nativeOpenAfter :: "props \<Rightarrow> request list \<Rightarrow> bool option" where
  "nativeOpenAfter p rs = (case session p rs of Inl e \<Rightarrow> None | Inr w \<Rightarrow> nativeOpen w)"

section \<open>The invariant of a mounted instance\<close>

text \<open>
  The registrations the component made itself are those of the last run of the
  listener effect: the click listener when light dismiss was enabled in that render,
  and the keydown listener.
\<close>

fun owned :: "registration \<Rightarrow> bool" where
  "owned (name, External n, c) = False"
| "owned (name, LightDismiss g s, c) = True"
| "owned (name, CloseOnEscape g s, c) = True"

definition own_listeners :: "nat \<Rightarrow> bool \<Rightarrow> setter \<Rightarrow> registration list" where
  "own_listeners g l s =
     (if l then [(''click'', LightDismiss g s, False)] else [])
       @ [(''keydown'', CloseOnEscape g s, False)]"

text \<open>
  \<open>pending\<close> holds between a request and its commit: the dependencies, the
  listeners and the object of the ref are as the last commit left them, and the
  element is open only if that commit opened it. \<open>settled\<close> holds after the commit:
  the dependencies are those of the current render.
\<close>

definition pending :: "world \<Rightarrow> bool" where
  "pending w =
     (case dialogRef w of
        None \<Rightarrow> False
      | Some d \<Rightarrow>
          (case listenerDeps w of
             None \<Rightarrow> False
           | Some (g, l, s) \<Rightarrow>
               (case syncDeps w of
                  None \<Rightarrow> False
                | Some b \<Rightarrow>
                    (if dlg_open d then b else True) \<and> handle w = Some (b, s) \<and>
                    s = setIsOpen w \<and> g < effectRuns w \<and>
                    filter owned (listeners d) = own_listeners g l s)))"

definition settled :: "world \<Rightarrow> bool" where
  "settled w =
     (pending w \<and> syncDeps w = Some (isOpen w) \<and>
      (case listenerDeps w of None \<Rightarrow> False | Some (g, l, s) \<Rightarrow> l = lightDismissEnabled w))"

text \<open>
  What the first effect, cleanup included, makes of an element when its dependency
  \<^verbatim>\<open>isOpen\<close> goes from \<open>b0\<close> to \<open>b\<close>.
\<close>

definition synced :: "bool \<Rightarrow> bool \<Rightarrow> dialog \<Rightarrow> dialog" where
  "synced b0 b d =
     (if b0 = b then d
      else if b
      then (dialog_close d)\<lparr>dlg_open := True, calls := calls d @ [CloseCall, ShowModalCall]\<rparr>
      else dialog_close (dialog_close d))"

section \<open>Properties of the effects\<close>

lemma pendingE:
  assumes "pending w"
  obtains d g l b where "dialogRef w = Some d" "listenerDeps w = Some (g, l, setIsOpen w)"
    "syncDeps w = Some b" "handle w = Some (b, setIsOpen w)" "b \<or> \<not> dlg_open d"
    "g < effectRuns w" "filter owned (listeners d) = own_listeners g l (setIsOpen w)"
proof -
  from assms obtain d where d: "dialogRef w = Some d"
    by (cases "dialogRef w") (simp_all add: pending_def)
  from assms d obtain g l s where ld: "listenerDeps w = Some (g, l, s)"
    by (cases "listenerDeps w") (auto simp: pending_def)
  from assms d ld obtain b where sd: "syncDeps w = Some b"
    by (cases "syncDeps w") (auto simp: pending_def)
  from assms have "(if dlg_open d then b else True) \<and> handle w = Some (b, s) \<and>
      s = setIsOpen w \<and> g < effectRuns w \<and> filter owned (listeners d) = own_listeners g l s"
    by (simp add: pending_def d ld sd)
  then show ?thesis
    using that [of d g l b] d ld sd by (cases "dlg_open d") simp_all
qed

lemma on_element [simp]:
  "close_opt (Some d) = Inr (Some (dialog_close d))"
  "syncCleanup (Some d) = Inr (Some (dialog_close d))"
  "add_opt name cb options (Some d) = Inr (Some (dialog_addEventListener name cb options d))"
  "remove_opt name cb options (Some d) =
     Inr (Some (dialog_removeEventListener name cb options d))"
  by (simp_all add: close_opt_def syncCleanup_def add_opt_def remove_opt_def
      optional_call_def call_method_def)

lemma on_null [simp]:
  "close_opt None = Inr None" "syncCleanup None = Inr None"
  "add_opt name cb options None = Inr None" "remove_opt name cb options None = Inr None"
  "safelyOpenDialogAsModal None = Inr None" "syncEffect b None = Inr None"
  "listenerEffect g l s None = Inr None" "listenerCleanup g l s None = Inr None"
  by (simp_all add: close_opt_def syncCleanup_def add_opt_def remove_opt_def
      optional_call_def safelyOpenDialogAsModal_def syncEffect_def listenerEffect_def
      listenerCleanup_def)

lemma cleanup_listeners:
  assumes "filter owned (listeners d) = own_listeners g l s"
  shows "\<exists>d'. listenerCleanup g l s (Some d) = Inr (Some d') \<and> filter owned (listeners d') = []
     \<and> dlg_open d' = dlg_open d \<and> calls d' = calls d \<and> closeEvents d' = closeEvents d
     \<and> nodeId d' = nodeId d"
  using assms
  by (auto simp: listenerCleanup_def dialog_removeEventListener_def capture_of_def
      own_listeners_def filter_remove1 split: if_splits)

lemma effect_listeners:
  assumes "filter owned (listeners d) = []"
  shows "\<exists>d'. listenerEffect g l s (Some d) = Inr (Some d')
     \<and> filter owned (listeners d') = own_listeners g l s
     \<and> dlg_open d' = dlg_open d \<and> calls d' = calls d \<and> closeEvents d' = closeEvents d
     \<and> nodeId d' = nodeId d"
  using assms
  by (auto simp: listenerEffect_def dialog_addEventListener_def capture_of_def
      own_listeners_def filter_empty_conv split: if_splits)

lemma close_fields [simp]:
  "dlg_open (dialog_close d) = False"
  "listeners (dialog_close d) = listeners d"
  "nodeId (dialog_close d) = nodeId d"
  "calls (dialog_close d) = calls d @ [CloseCall]"
  "closeEvents (dialog_close d) = (if dlg_open d then Suc (closeEvents d) else closeEvents d)"
  by (simp_all add: dialog_close_def)

lemma sync_effect_element:
  "syncEffect b (Some d) =
     Inr (Some (if b
                then (if dlg_open d then d
                      else d\<lparr>dlg_open := True, calls := calls d @ [ShowModalCall]\<rparr>)
                else dialog_close d))"
  by (simp add: syncEffect_def safelyOpenDialogAsModal_def read_open_def call_method_def
      dialog_showModal_def)

lemma sync_effect_fields:
  assumes "\<not> dlg_open d"
  shows "\<exists>d'. syncEffect b (Some d) = Inr (Some d') \<and> dlg_open d' = b
      \<and> listeners d' = listeners d \<and> nodeId d' = nodeId d
      \<and> calls d' = calls d @ [if b then ShowModalCall else CloseCall]
      \<and> closeEvents d' = closeEvents d"
  using assms by (simp add: sync_effect_element)

lemma commit_pending:
  assumes "pending w" "dialogRef w = Some d" "syncDeps w = Some b"
  shows "\<exists>w' d'. commit w = Inr w' \<and> settled w' \<and> dialogRef w' = Some d'
      \<and> dlg_open d' = (if b = isOpen w then dlg_open d else isOpen w)
      \<and> calls d' = calls (synced b (isOpen w) d)
      \<and> closeEvents d' = closeEvents (synced b (isOpen w) d)
      \<and> nodeId d' = nodeId d
      \<and> controlled w' = controlled w \<and> ancestorOpen w' = ancestorOpen w
      \<and> uncontrolledOpen w' = uncontrolledOpen w
      \<and> shouldLightDismiss w' = shouldLightDismiss w \<and> onClose w' = onClose w"
proof -
  from assms obtain g l where
    ld: "listenerDeps w = Some (g, l, setIsOpen w)" and
    hd: "handle w = Some (b, setIsOpen w)" and
    ob0: "b \<or> \<not> dlg_open d" and
    g: "g < effectRuns w" and
    own: "filter owned (listeners d) = own_listeners g l (setIsOpen w)"
    by (auto elim: pendingE)
  from ob0 have ob: "dlg_open d \<Longrightarrow> b" by blast
  note sd = assms(3)
  let ?o = "isOpen w" and ?s = "setIsOpen w" and ?l = "lightDismissEnabled w"
  have sc: "syncChanged w = (b \<noteq> ?o)"
    by (auto simp: syncChanged_def sd)
  have lc: "listenersChanged w = (l \<noteq> ?l)"
    by (simp add: listenersChanged_def ld)
  define d1 where "d1 = (if b \<noteq> ?o then dialog_close d else d)"
  have d1: "filter owned (listeners d1) = own_listeners g l ?s" "nodeId d1 = nodeId d"
    "dlg_open d1 = (dlg_open d \<and> b = ?o)"
    "calls d1 = calls d @ (if b \<noteq> ?o then [CloseCall] else [])"
    "closeEvents d1 = (if dlg_open d \<and> b \<noteq> ?o then Suc (closeEvents d) else closeEvents d)"
    "listeners d1 = listeners d"
    using own by (auto simp: d1_def)
  obtain d2 where d2:
    "(if l \<noteq> ?l then listenerCleanup g l ?s (Some d1) else Inr (Some d1)) = Inr (Some d2)"
    "filter owned (listeners d2) = (if l \<noteq> ?l then [] else own_listeners g l ?s)"
    "dlg_open d2 = dlg_open d1" "calls d2 = calls d1" "closeEvents d2 = closeEvents d1"
    "nodeId d2 = nodeId d1" "l = ?l \<Longrightarrow> listeners d2 = listeners d1"
    using cleanup_listeners [OF d1(1)] d1(1) by (cases "l = ?l") auto
  have rc: "run_cleanups w = Inr (Some d2)"
    using d2(1) unfolding d1_def
    by (auto simp: run_cleanups_def sc lc ld sd assms(2))
  obtain d3 where d3:
    "(if b \<noteq> ?o then syncEffect ?o (Some d2) else Inr (Some d2)) = Inr (Some d3)"
    "dlg_open d3 = (if b = ?o then dlg_open d else ?o)" "listeners d3 = listeners d2"
    "nodeId d3 = nodeId d2"
    "calls d3 = calls d2 @ (if b = ?o then [] else [if ?o then ShowModalCall else CloseCall])"
    "closeEvents d3 = closeEvents d2"
  proof (cases "b = ?o")
    case True
    then show ?thesis using that [of d2] d2 d1 by simp
  next
    case False
    then have "\<not> dlg_open d2" using d2 d1 by auto
    from sync_effect_fields [OF this, of ?o] False that show ?thesis by auto
  qed
  obtain d4 where d4:
    "(if l \<noteq> ?l then listenerEffect (effectRuns w) ?l ?s (Some d3) else Inr (Some d3))
       = Inr (Some d4)"
    "filter owned (listeners d4) =
       (if l \<noteq> ?l then own_listeners (effectRuns w) ?l ?s else own_listeners g l ?s)"
    "dlg_open d4 = dlg_open d3" "calls d4 = calls d3" "closeEvents d4 = closeEvents d3"
    "nodeId d4 = nodeId d3" "l = ?l \<Longrightarrow> listeners d4 = listeners d3"
  proof (cases "l = ?l")
    case True
    then show ?thesis using that [of d3] d3 d2 by simp
  next
    case False
    then have "filter owned (listeners d3) = []" using d3 d2 by simp
    from effect_listeners [OF this, of "effectRuns w" ?l ?s] False that show ?thesis by auto
  qed
  define w' where "w' = (if l \<noteq> ?l
               then w\<lparr>dialogRef := Some d4,
                      syncDeps := Some ?o,
                      listenerDeps := Some (effectRuns w, ?l, ?s),
                      handle := Some (?o, ?s),
                      effectRuns := Suc (effectRuns w)\<rparr>
               else w\<lparr>dialogRef := Some d4,
                      syncDeps := Some ?o,
                      handle := Some (?o, ?s)\<rparr>)"
  have c: "commit w = Inr w'"
    using d3(1) d4(1) by (auto simp: commit_def sc lc rc w'_def)
  have frame: "controlled w' = controlled w" "ancestorOpen w' = ancestorOpen w"
    "uncontrolledOpen w' = uncontrolledOpen w" "shouldLightDismiss w' = shouldLightDismiss w"
    "onClose w' = onClose w" "dialogRef w' = Some d4"
    by (simp_all add: w'_def)
  have same: "isOpen w' = ?o" "setIsOpen w' = ?s" "lightDismissEnabled w' = ?l"
    by (simp_all add: isOpen_def setIsOpen_def lightDismissEnabled_def controlledOpen_def
        setControlledOpen_def frame)
  have op: "dlg_open d4 \<Longrightarrow> ?o"
    using d4(3) d3(2) ob by (auto split: if_splits)
  have deps: "syncDeps w' = Some ?o" "handle w' = Some (?o, ?s)"
    "listenerDeps w' = Some (if l \<noteq> ?l then effectRuns w else g, ?l, ?s)"
    "(if l \<noteq> ?l then effectRuns w else g) < effectRuns w'"
    using g ld by (simp_all add: w'_def)
  have st: "settled w'"
    unfolding settled_def pending_def same frame deps
    using d4(2) op deps(4) by (cases "l = ?l") simp_all
  have "calls d4 = calls d @ (if b = ?o then [] else [CloseCall, if ?o then ShowModalCall else CloseCall])"
    by (simp add: d4(4) d3(5) d2(4) d1(4))
  moreover have "calls (synced b ?o d) = calls d @ (if b = ?o then [] else [CloseCall, if ?o then ShowModalCall else CloseCall])"
    by (simp add: synced_def)
  moreover have "closeEvents d4 = (if dlg_open d \<and> b \<noteq> ?o then Suc (closeEvents d) else closeEvents d)"
    by (simp add: d4(5) d3(6) d2(5) d1(5))
  moreover have "closeEvents (synced b ?o d) = (if dlg_open d \<and> b \<noteq> ?o then Suc (closeEvents d) else closeEvents d)"
    using ob by (auto simp: synced_def)
  ultimately have cl: "calls d4 = calls (synced b ?o d)" "closeEvents d4 = closeEvents (synced b ?o d)"
    by simp_all
  have nd: "nodeId d4 = nodeId d" "dlg_open d4 = (if b = ?o then dlg_open d else ?o)"
    by (simp_all add: d4(3,6) d3(2,4) d2(6) d1(2))
  show ?thesis
    apply (rule exI [of _ w'], rule exI [of _ d4])
    using c st frame cl nd by simp
qed

lemma dispatch_owned: "dispatch rs ev = dispatch (filter owned rs) ev"
proof (induction rs arbitrary: ev)
  case Nil
  show ?case by simp
next
  case (Cons r rs)
  obtain name cb cap where r: "r = (name, cb, cap)" by (cases r)
  show ?case
    using Cons.IH by (cases cb) (simp_all add: r split: prod.splits)
qed

lemma dispatch_click:
  "dispatch (own_listeners g l s) (click t) =
     (if l \<and> nodeName t = Some ''DIALOG''
      then ((click t)\<lparr>defaultPrevented := True, propagationStopped := True\<rparr>, [(s, False)])
      else (click t, []))"
  by (cases t) (simp_all add: own_listeners_def click_def lightDismiss_def handleClose_def)

lemma dispatch_keydown:
  "dispatch (own_listeners g l s) (keydown t k c) =
     (if c = ''Escape''
      then ((keydown t k c)\<lparr>defaultPrevented := True, propagationStopped := True\<rparr>,
            [(s, False)])
      else (keydown t k c, []))"
  by (simp add: own_listeners_def keydown_def closeOnEscape_def handleClose_def)

lemma settledE:
  assumes "settled w"
  obtains d g where "dialogRef w = Some d"
    "listenerDeps w = Some (g, lightDismissEnabled w, setIsOpen w)"
    "syncDeps w = Some (isOpen w)" "isOpen w \<or> \<not> dlg_open d"
    "handle w = Some (isOpen w, setIsOpen w)"
    "g < effectRuns w"
    "filter owned (listeners d) = own_listeners g (lightDismissEnabled w) (setIsOpen w)"
    "pending w"
proof -
  from assms have p: "pending w" and sd: "syncDeps w = Some (isOpen w)"
    by (simp_all add: settled_def)
  from p obtain d g l b where f: "dialogRef w = Some d"
    "listenerDeps w = Some (g, l, setIsOpen w)"
    "syncDeps w = Some b" "handle w = Some (b, setIsOpen w)" "b \<or> \<not> dlg_open d"
    "g < effectRuns w" "filter owned (listeners d) = own_listeners g l (setIsOpen w)"
    by (rule pendingE)
  have "b = isOpen w" using f(3) sd by simp
  moreover have "l = lightDismissEnabled w"
    using assms f(2) by (simp add: settled_def)
  ultimately show ?thesis using that [of d g] f p by simp
qed

lemma event_fields [simp]:
  "ev_type (click t) = ''click''" "ev_type (keydown t k c) = ''keydown''"
  "code (keydown t k c) = c" "key (keydown t k c) = k"
  "defaultPrevented (keydown t k c) = False"
  by (simp_all add: click_def keydown_def)

lemma same_ref: "dialogRef w = Some d \<Longrightarrow> w\<lparr>dialogRef := Some d\<rparr> = w"
  by (cases w) simp

lemma deliver_click:
  assumes "settled w"
  shows "deliver (click t) w =
     (if lightDismissEnabled w \<and> nodeName t = Some ''DIALOG''
      then call_setter w (setIsOpen w, False) else w)"
proof -
  from assms obtain d g where d: "dialogRef w = Some d"
    "filter owned (listeners d) = own_listeners g (lightDismissEnabled w) (setIsOpen w)"
    by (auto elim: settledE)
  have "dispatch (listeners d) (click t) =
     dispatch (own_listeners g (lightDismissEnabled w) (setIsOpen w)) (click t)"
    using dispatch_owned [of "listeners d"] d(2) by simp
  then show ?thesis
    by (simp add: deliver_def d(1) dispatch_click default_action_def same_ref)
qed

text \<open>
  A key press on a settled instance: the listener acts on \<^verbatim>\<open>code\<close>, the user agent on
  \<^verbatim>\<open>key\<close>.
\<close>

lemma deliver_keydown:
  assumes "settled w" "dialogRef w = Some d"
  shows "deliver (keydown t k c) w =
     (if c = ''Escape'' then call_setter w (setIsOpen w, False)
      else if k = ''Escape'' then w\<lparr>dialogRef := Some (dialog_cancel d)\<rparr>
      else w)"
proof -
  from assms obtain g where d:
    "filter owned (listeners d) = own_listeners g (lightDismissEnabled w) (setIsOpen w)"
    by (auto elim: settledE)
  have "dispatch (listeners d) (keydown t k c) =
     dispatch (own_listeners g (lightDismissEnabled w) (setIsOpen w)) (keydown t k c)"
    using dispatch_owned [of "listeners d"] d by simp
  then show ?thesis
    using assms(2)
    by (simp add: deliver_def dispatch_keydown default_action_def same_ref)
qed

lemma ref_settled:
  assumes "settled w"
  shows "ref_showModal w = call_setter w (setIsOpen w, True)"
    "ref_close w = call_setter w (setIsOpen w, False)"
  using assms by (auto elim!: settledE simp: ref_showModal_def ref_close_def)

lemma call_setter_fields [simp]:
  "dialogRef (call_setter w c) = dialogRef w"
  "onClose (call_setter w c) = onClose w"
  "controlled (call_setter w c) = controlled w"
  "shouldLightDismiss (call_setter w c) = shouldLightDismiss w"
  "syncDeps (call_setter w c) = syncDeps w"
  "listenerDeps (call_setter w c) = listenerDeps w"
  "handle (call_setter w c) = handle w"
  "effectRuns (call_setter w c) = effectRuns w"
proof -
  obtain s v where c: "c = (s, v)" by (cases c)
  show "dialogRef (call_setter w c) = dialogRef w" "onClose (call_setter w c) = onClose w"
    "controlled (call_setter w c) = controlled w"
    "shouldLightDismiss (call_setter w c) = shouldLightDismiss w"
    "syncDeps (call_setter w c) = syncDeps w"
    "listenerDeps (call_setter w c) = listenerDeps w"
    "handle (call_setter w c) = handle w"
    "effectRuns (call_setter w c) = effectRuns w"
    by (cases s; simp add: c)+
qed

lemma derived_call_setter [simp]:
  "setIsOpen (call_setter w c) = setIsOpen w"
  "lightDismissEnabled (call_setter w c) = lightDismissEnabled w"
  by (simp_all add: setIsOpen_def setControlledOpen_def lightDismissEnabled_def)

lemma pending_call_setter: "pending w \<Longrightarrow> pending (call_setter w c)"
proof -
  obtain s v where c: "c = (s, v)" by (cases c)
  assume "pending w"
  then show ?thesis
    by (cases s)
       (auto simp: c pending_def setIsOpen_def setControlledOpen_def split: option.splits)
qed

lemma pending_cancel:
  assumes "pending w" "dialogRef w = Some d"
  shows "pending (w\<lparr>dialogRef := Some (dialog_cancel d)\<rparr>)"
proof -
  have "listeners (dialog_cancel d) = listeners d" "\<not> dlg_open (dialog_cancel d)"
    by (simp_all add: dialog_cancel_def)
  then show ?thesis
    using assms
    by (auto simp: pending_def setIsOpen_def setControlledOpen_def split: option.splits)
qed

lemma filter_owned_external:
  "filter owned (listeners (dialog_addEventListener name (External n) options d)) =
     filter owned (listeners d)"
  "filter owned (listeners (dialog_removeEventListener name (External n) options d)) =
     filter owned (listeners d)"
proof -
  show "filter owned (listeners (dialog_addEventListener name (External n) options d)) =
     filter owned (listeners d)"
    by (simp add: dialog_addEventListener_def)
  have "(name, External n, capture_of options) \<notin> set (filter owned (listeners d))"
    by simp
  then show "filter owned (listeners (dialog_removeEventListener name (External n) options d)) =
     filter owned (listeners d)"
    by (simp add: dialog_removeEventListener_def filter_remove1 remove1_idem)
qed

lemma external_fields [simp]:
  "dlg_open (dialog_addEventListener name cb options d) = dlg_open d"
  "dlg_open (dialog_removeEventListener name cb options d) = dlg_open d"
  by (simp_all add: dialog_addEventListener_def dialog_removeEventListener_def)

lemma pending_perform:
  assumes "settled w"
  shows "\<exists>w1. perform w r = Inr w1 \<and> pending w1"
proof -
  from assms obtain d where d: "dialogRef w = Some d" and p: "pending w"
    by (auto elim: settledE)
  show ?thesis
  proof (cases r)
    case (AncestorSetIsOpen v)
    then show ?thesis using pending_call_setter [OF p, of "(SetControlledOpen, v)"] by simp
  next
    case RefShowModal
    then show ?thesis using p assms by (simp add: ref_settled pending_call_setter)
  next
    case RefClose
    then show ?thesis using p assms by (simp add: ref_settled pending_call_setter)
  next
    case (RefAddEventListener name n options)
    then show ?thesis using assms
      by (auto elim!: settledE
          simp: pending_def ref_addEventListener_def filter_owned_external
            setIsOpen_def setControlledOpen_def)
  next
    case (RefRemoveEventListener name n options)
    then show ?thesis using assms
      by (auto elim!: settledE
          simp: pending_def ref_removeEventListener_def filter_owned_external
            setIsOpen_def setControlledOpen_def)
  next
    case (SetShouldLightDismiss v)
    then show ?thesis using p
      by (auto simp: pending_def setIsOpen_def setControlledOpen_def split: option.splits)
  next
    case (Click t)
    then show ?thesis using p assms by (simp add: deliver_click pending_call_setter)
  next
    case (Keydown t k c)
    then show ?thesis
      using p assms d by (simp add: deliver_keydown pending_call_setter pending_cancel)
  qed
qed

lemma step_settled:
  assumes "settled w"
  shows "\<exists>w'. step w r = Inr w' \<and> settled w'"
proof -
  from pending_perform [OF assms, of r] obtain w1 where
    w1: "perform w r = Inr w1" "pending w1" by blast
  then obtain d b where "dialogRef w1 = Some d" "syncDeps w1 = Some b"
    by (auto elim: pendingE)
  from commit_pending [OF w1(2) this] show ?thesis by (auto simp: step_def w1(1))
qed

lemma run_settled: "settled w \<Longrightarrow> \<exists>w'. run w rs = Inr w' \<and> settled w'"
proof (induction rs arbitrary: w)
  case Nil
  then show ?case by simp
next
  case (Cons r rs)
  from step_settled [OF Cons.prems, of r] obtain w1 where "step w r = Inr w1" "settled w1"
    by blast
  with Cons.IH [of w1] show ?case by simp
qed

lemma mount_settled: "\<exists>w. mount p = Inr w \<and> settled w"
proof -
  let ?w = "first_render p (Some new_dialog)"
  let ?o = "isOpen ?w" and ?s = "setIsOpen ?w" and ?l = "lightDismissEnabled ?w"
  have rc: "run_cleanups ?w = Inr (Some new_dialog)"
    by (simp add: run_cleanups_def first_render_def syncChanged_def)
  have ch: "syncChanged ?w" "listenersChanged ?w"
    by (simp_all add: syncChanged_def listenersChanged_def first_render_def)
  have nd: "\<not> dlg_open new_dialog" "filter owned (listeners new_dialog) = []"
    by (simp_all add: new_dialog_def)
  from sync_effect_fields [OF nd(1), of ?o] obtain d3 where
    d3: "syncEffect ?o (Some new_dialog) = Inr (Some d3)" "dlg_open d3 = ?o"
      "listeners d3 = listeners new_dialog"
    by blast
  then have "filter owned (listeners d3) = []" using nd by simp
  from effect_listeners [OF this, of 0 ?l ?s] obtain d4 where
    d4: "listenerEffect 0 ?l ?s (Some d3) = Inr (Some d4)"
      "filter owned (listeners d4) = own_listeners 0 ?l ?s" "dlg_open d4 = dlg_open d3"
    by blast
  define w' where "w' = ?w\<lparr>dialogRef := Some d4,
                      syncDeps := Some ?o,
                      listenerDeps := Some (0, ?l, ?s),
                      handle := Some (?o, ?s),
                      effectRuns := Suc 0\<rparr>"
  have er: "effectRuns ?w = 0" by (simp add: first_render_def)
  have c: "mount p = Inr w'"
    unfolding mount_def commit_def using ch rc d3(1) d4(1) by (simp add: er w'_def)
  have same: "isOpen w' = ?o" "setIsOpen w' = ?s" "lightDismissEnabled w' = ?l"
    by (simp_all add: isOpen_def setIsOpen_def lightDismissEnabled_def controlledOpen_def
        setControlledOpen_def w'_def)
  have "settled w'"
    unfolding settled_def pending_def same
    using d4 d3 by (simp add: w'_def)
  with c show ?thesis by blast
qed

lemma session_settled: "\<exists>w. session p rs = Inr w \<and> settled w"
proof -
  from mount_settled obtain w0 where "mount p = Inr w0" "settled w0" by blast
  with run_settled [of w0 rs] show ?thesis by (simp add: session_def)
qed

lemma reachable_settled: "session p rs = Inr w \<Longrightarrow> settled w"
  using session_settled [of p rs] by auto

lemma frame_isOpen:
  "controlled w' = controlled w \<Longrightarrow> ancestorOpen w' = ancestorOpen w \<Longrightarrow>
   uncontrolledOpen w' = uncontrolledOpen w \<Longrightarrow> isOpen w' = isOpen w"
  by (simp add: isOpen_def controlledOpen_def)

lemma isOpen_call_setter: "isOpen (call_setter w (setIsOpen w, v)) = v"
  by (simp add: isOpen_def setIsOpen_def controlledOpen_def setControlledOpen_def)

lemma commit_settled:
  assumes "settled w"
  shows "commit w = Inr w"
proof -
  from assms obtain d g where f: "dialogRef w = Some d"
    "listenerDeps w = Some (g, lightDismissEnabled w, setIsOpen w)"
    "syncDeps w = Some (isOpen w)" "handle w = Some (isOpen w, setIsOpen w)"
    by (auto elim: settledE)
  have "\<not> syncChanged w" "\<not> listenersChanged w"
    by (simp_all add: syncChanged_def listenersChanged_def f)
  moreover from this have "run_cleanups w = Inr (dialogRef w)"
    by (simp add: run_cleanups_def f)
  moreover have "w\<lparr>dialogRef := dialogRef w, syncDeps := syncDeps w, handle := handle w\<rparr> = w"
    by simp
  ultimately show ?thesis
    by (simp add: commit_def f [symmetric])
qed

text \<open>A settled instance asked to set its state to \<open>v\<close>.\<close>

lemma request_state:
  assumes "settled w" "dialogRef w = Some d"
  shows "\<exists>w' d'. commit (call_setter w (setIsOpen w, v)) = Inr w' \<and> settled w'
      \<and> isOpen w' = v \<and> dialogRef w' = Some d'
      \<and> dlg_open d' = (if isOpen w = v then dlg_open d else v)
      \<and> calls d' = calls (synced (isOpen w) v d)
      \<and> closeEvents d' = closeEvents (synced (isOpen w) v d)
      \<and> onClose w' = onClose w"
proof -
  let ?w = "call_setter w (setIsOpen w, v)"
  have p: "pending ?w" using assms(1) by (auto elim: settledE intro: pending_call_setter)
  have r: "dialogRef ?w = Some d" using assms(2) by simp
  have s: "syncDeps ?w = Some (isOpen w)" using assms(1) by (auto elim: settledE)
  from commit_pending [OF p r s] obtain w' d' where
    c: "commit ?w = Inr w'" "settled w'" "dialogRef w' = Some d'"
      "dlg_open d' = (if isOpen w = isOpen ?w then dlg_open d else isOpen ?w)"
      "calls d' = calls (synced (isOpen w) (isOpen ?w) d)"
      "closeEvents d' = closeEvents (synced (isOpen w) (isOpen ?w) d)"
      "controlled w' = controlled ?w" "ancestorOpen w' = ancestorOpen ?w"
      "uncontrolledOpen w' = uncontrolledOpen ?w" "onClose w' = onClose ?w"
    by blast
  have "isOpen w' = v"
    using frame_isOpen [OF c(7,8,9)] by (simp add: isOpen_call_setter)
  with c show ?thesis by (simp add: isOpen_call_setter)
qed

lemma synced_facts:
  "dlg_open d \<Longrightarrow> closeEvents (synced True False d) = Suc (closeEvents d)"
  "calls (synced True False d) = calls d @ [CloseCall, CloseCall]"
  "calls (synced False True d) = calls d @ [CloseCall, ShowModalCall]"
  "synced v v d = d"
  by (simp_all add: synced_def)

lemma InrE: "(case x of Inl e \<Rightarrow> False | Inr w \<Rightarrow> Q w) \<Longrightarrow> \<exists>w. x = Inr w \<and> Q w"
  by (cases x) auto

lemma settled_call_setter:
  assumes "settled w" "isOpen (call_setter w c) = isOpen w"
  shows "settled (call_setter w c)"
proof -
  have "pending (call_setter w c)"
    using assms(1) by (auto elim: settledE intro: pending_call_setter)
  then show ?thesis
    using assms unfolding settled_def by (auto split: option.splits)
qed

lemma step_call_setter_same:
  assumes "settled w" "isOpen (call_setter w c) = isOpen w"
  shows "commit (call_setter w c) = Inr (call_setter w c)"
  using settled_call_setter [OF assms] by (rule commit_settled)

lemma request_open_when_open:
  assumes "settled w" "isOpen w" "r = RefShowModal \<or> r = AncestorSetIsOpen True"
  shows "step w r = perform w r \<and> (\<exists>w1. perform w r = Inr w1 \<and> dialogRef w1 = dialogRef w)"
proof -
  obtain c where c: "perform w r = Inr (call_setter w c)"
    "isOpen (call_setter w c) = isOpen w"
  proof (cases "r = RefShowModal")
    case True
    then show ?thesis
      using that [of "(setIsOpen w, True)"] assms(1,2) by (simp add: ref_settled isOpen_call_setter)
  next
    case False
    with assms(3) have "r = AncestorSetIsOpen True" by simp
    then show ?thesis
      using that [of "(SetControlledOpen, True)"] assms(2)
      by (cases "controlled w") (simp_all add: isOpen_def controlledOpen_def)
  qed
  show ?thesis
    using step_call_setter_same [OF assms(1) c(2)] by (simp add: step_def c(1))
qed

lemma reachable_ref: "session p rs = Inr w \<Longrightarrow> \<exists>d. dialogRef w = Some d"
  by (auto dest!: reachable_settled elim: settledE)

lemma close_request:
  assumes "settled w" "isOpen w" "onClose w" "nativeOpen w = Some True"
  shows "\<exists>w'. commit (call_setter w (setIsOpen w, False)) = Inr w' \<and> \<not> isOpen w' \<and>
      nativeOpen w' = Some False \<and> onCloseCalls w' = Suc (onCloseCalls w)"
proof -
  from assms(1,4) obtain d where d: "dialogRef w = Some d" "dlg_open d"
    by (auto elim: settledE simp: nativeOpen_def)
  from request_state [OF assms(1) d(1), of False] obtain w' d' where
    c: "commit (call_setter w (setIsOpen w, False)) = Inr w'" "isOpen w' = False"
      "dialogRef w' = Some d'" "dlg_open d' = (if isOpen w = False then dlg_open d else False)"
      "closeEvents d' = closeEvents (synced (isOpen w) False d)" "onClose w' = onClose w"
    by blast
  have "closeEvents d' = Suc (closeEvents d)"
    using c(5) d(2) assms(2) by (simp add: synced_facts)
  then show ?thesis
    using c d assms(2,3) by (simp add: nativeOpen_def onCloseCalls_def)
qed


lemma open_at:
  assumes "case session p rs of Inl e \<Rightarrow> False
           | Inr w \<Rightarrow> isOpen w \<and> onClose w \<and> nativeOpen w = Some True \<and>
               lightDismissEnabled w = l"
  shows "\<exists>w d. session p rs = Inr w \<and> isOpen w \<and> onClose w \<and> nativeOpen w = Some True \<and>
      lightDismissEnabled w = l \<and> dialogRef w = Some d"
proof -
  from assms obtain w where w: "session p rs = Inr w" "isOpen w" "onClose w"
    "nativeOpen w = Some True" "lightDismissEnabled w = l"
    by (auto dest: InrE)
  from reachable_ref [OF w(1)] w show ?thesis by blast
qed

lemma ref_showModal_ref: "dialogRef (ref_showModal w) = dialogRef w"
  by (simp add: ref_showModal_def split: option.splits)

lemma perform_null:
  assumes "dialogRef w = None"
  shows "\<exists>w1. perform w r = Inr w1 \<and> dialogRef w1 = None"
  using assms
  by (cases r)
     (simp_all add: ref_showModal_def ref_close_def ref_addEventListener_def
        ref_removeEventListener_def deliver_def split: option.splits)

lemma commit_null:
  assumes "dialogRef w = None"
  shows "\<exists>w'. commit w = Inr w' \<and> dialogRef w' = None"
proof -
  have "run_cleanups w = Inr None"
    using assms by (simp add: run_cleanups_def split: option.splits)
  then show ?thesis
    by (simp add: commit_def)
qed

lemma step_null:
  assumes "dialogRef w = None"
  shows "\<exists>w'. step w r = Inr w' \<and> dialogRef w' = None"
proof -
  from perform_null [OF assms, of r] obtain w1 where
    w1: "perform w r = Inr w1" "dialogRef w1 = None" by blast
  from commit_null [OF w1(2)] show ?thesis by (simp add: step_def w1(1))
qed

lemma unmount_null:
  assumes "dialogRef w = None"
  shows "\<exists>w'. unmount w = Inr w' \<and> dialogRef w' = None"
  using assms by (simp add: unmount_def split: option.splits)

section \<open>The claims\<close>

text \<open>
  C1 does not hold of the code. \<^verbatim>\<open>closeOnEscape\<close> prevents the default action only
  when \<^verbatim>\<open>event.code\<close> is \<^verbatim>\<open>Escape\<close>, while the user agent cancels the dialog on the
  Escape key whatever physical key produced it. In the uncontrolled instance of
  \<^verbatim>\<open>App\<close>, opened through the ref, a press of the Escape key with \<^verbatim>\<open>code\<close> \<^verbatim>\<open>CapsLock\<close>
  (a remapped keyboard) closes the native element and leaves \<^verbatim>\<open>isOpen\<close> true: the two
  disagree after the commit, and a further \<^verbatim>\<open>showModal()\<close> through the ref does not
  reopen the element.
\<close>

theorem escape_key_with_other_code_diverges:
  "openAfter app_uncontrolled [RefShowModal] = Some True \<and>
   nativeOpenAfter app_uncontrolled [RefShowModal] = Some True \<and>
   openAfter app_uncontrolled
     [RefShowModal, Keydown (self_node new_dialog) ''Escape'' ''CapsLock''] = Some True \<and>
   nativeOpenAfter app_uncontrolled
     [RefShowModal, Keydown (self_node new_dialog) ''Escape'' ''CapsLock''] = Some False \<and>
   openAfter app_uncontrolled
     [RefShowModal, Keydown (self_node new_dialog) ''Escape'' ''CapsLock'', RefShowModal]
     = Some True \<and>
   nativeOpenAfter app_uncontrolled
     [RefShowModal, Keydown (self_node new_dialog) ''Escape'' ''CapsLock'', RefShowModal]
     = Some False"
  by code_simp

text \<open>
  C2. With \<^verbatim>\<open>isOpen\<close> true, the first effect calls \<^verbatim>\<open>showModal()\<close> only on an element
  that is not open: on an open element it makes no call and leaves the element as it
  is, and it never fails. No session ever ends in an error; and a request to open an
  instance whose \<^verbatim>\<open>isOpen\<close> is already true leaves the element untouched.
\<close>

theorem no_second_native_open:
  "syncEffect True dialog =
     Inr (case dialog of
            None \<Rightarrow> None
          | Some d \<Rightarrow>
              Some (if dlg_open d then d
                    else d\<lparr>dlg_open := True, calls := calls d @ [ShowModalCall]\<rparr>)) \<and>
   session p rs \<noteq> Inl e \<and>
   (session p rs = Inr w \<and> isOpen w \<and> (r = RefShowModal \<or> r = AncestorSetIsOpen True) \<longrightarrow>
      step w r = perform w r \<and> (\<exists>w1. perform w r = Inr w1 \<and> dialogRef w1 = dialogRef w))"
proof (intro conjI impI)
  show "syncEffect True dialog =
     Inr (case dialog of
            None \<Rightarrow> None
          | Some d \<Rightarrow>
              Some (if dlg_open d then d
                    else d\<lparr>dlg_open := True, calls := calls d @ [ShowModalCall]\<rparr>))"
    by (cases dialog) (simp_all add: sync_effect_element)
  show "session p rs \<noteq> Inl e"
    using session_settled [of p rs] by auto
next
  assume a: "session p rs = Inr w \<and> isOpen w \<and> (r = RefShowModal \<or> r = AncestorSetIsOpen True)"
  then have "settled w" by (auto dest: reachable_settled)
  from request_open_when_open [OF this] a
  show "step w r = perform w r" "\<exists>w1. perform w r = Inr w1 \<and> dialogRef w1 = dialogRef w"
    by auto
qed

theorem no_second_native_open_witness:
  "\<exists>w. session app_uncontrolled [RefShowModal] = Inr w \<and> isOpen w \<and>
        nativeOpen w = Some True \<and>
        step w RefShowModal = perform w RefShowModal \<and>
        (\<exists>w1. perform w RefShowModal = Inr w1 \<and> dialogRef w1 = dialogRef w)"
proof -
  have "case session app_uncontrolled [RefShowModal] of Inl e \<Rightarrow> False
        | Inr w \<Rightarrow> isOpen w \<and> nativeOpen w = Some True"
    by code_simp
  then obtain w where w: "session app_uncontrolled [RefShowModal] = Inr w" "isOpen w"
    "nativeOpen w = Some True"
    by (auto dest: InrE)
  with no_second_native_open [of None app_uncontrolled "[RefShowModal]" InvalidStateError w RefShowModal]
  show ?thesis by auto
qed

text \<open>
  C3. In a mounted instance with light dismiss enabled, an \<^verbatim>\<open>onClose\<close> callback and
  the dialog open (\<^verbatim>\<open>isOpen\<close> true and the native element open), a click whose target
  is the dialog element itself sets \<^verbatim>\<open>isOpen\<close> to false; the commit closes the native
  element, which fires one \<^verbatim>\<open>close\<close> event, so \<^verbatim>\<open>onClose\<close> runs once.
\<close>

theorem light_dismiss_closes:
  assumes "session p rs = Inr w" "lightDismissEnabled w" "isOpen w" "onClose w"
    "dialogRef w = Some d" "nativeOpen w = Some True"
  shows "\<exists>w'. step w (Click (self_node d)) = Inr w' \<and> \<not> isOpen w' \<and>
      nativeOpen w' = Some False \<and> onCloseCalls w' = Suc (onCloseCalls w)"
proof -
  have s: "settled w" using assms(1) by (rule reachable_settled)
  have "perform w (Click (self_node d)) = Inr (call_setter w (setIsOpen w, False))"
    using assms(2) by (simp add: deliver_click [OF s] self_node_def)
  with close_request [OF s assms(3,4,6)] show ?thesis by (simp add: step_def)
qed

theorem light_dismiss_closes_witness:
  "\<exists>w d. session app_controlled [AncestorSetIsOpen True] = Inr w \<and>
      lightDismissEnabled w \<and> isOpen w \<and> onClose w \<and> dialogRef w = Some d \<and>
      nativeOpen w = Some True \<and>
      (\<exists>w'. step w (Click (self_node d)) = Inr w' \<and> \<not> isOpen w' \<and>
         nativeOpen w' = Some False \<and> onCloseCalls w' = Suc (onCloseCalls w))"
proof -
  have "case session app_controlled [AncestorSetIsOpen True] of Inl e \<Rightarrow> False
        | Inr w \<Rightarrow> isOpen w \<and> onClose w \<and> nativeOpen w = Some True \<and>
            lightDismissEnabled w = True"
    by code_simp
  from open_at [OF this] obtain w d where
    w: "session app_controlled [AncestorSetIsOpen True] = Inr w" "lightDismissEnabled w"
      "isOpen w" "onClose w" "dialogRef w = Some d" "nativeOpen w = Some True"
    by auto
  from light_dismiss_closes [OF w] w show ?thesis by blast
qed

text \<open>
  C4. In a mounted instance with light dismiss disabled, no \<^verbatim>\<open>lightDismiss\<close> listener
  is registered for \<^verbatim>\<open>click\<close> on the element, whatever was enabled before, and a
  click whose target is the dialog element itself changes nothing: neither the state
  of the component nor the element.
\<close>

theorem backdrop_click_inert_without_light_dismiss:
  assumes "session p rs = Inr w" "\<not> lightDismissEnabled w" "dialogRef w = Some d"
  shows "(''click'', LightDismiss g s, c) \<notin> set (listeners d) \<and>
     step w (Click (self_node d)) = Inr w"
proof
  have st: "settled w" using assms(1) by (rule reachable_settled)
  with assms(2,3) obtain g' where
    "filter owned (listeners d) = own_listeners g' False (setIsOpen w)"
    by (auto elim!: settledE)
  then have "set (filter owned (listeners d)) = {(''keydown'', CloseOnEscape g' (setIsOpen w), False)}"
    by (simp add: own_listeners_def)
  moreover have "(''click'', LightDismiss g s, c) \<in> set (filter owned (listeners d))"
    if "(''click'', LightDismiss g s, c) \<in> set (listeners d)"
    using that by simp
  ultimately show "(''click'', LightDismiss g s, c) \<notin> set (listeners d)"
    by (metis callback.distinct(1) prod.inject singletonD)
  have "perform w (Click (self_node d)) = Inr w"
    using assms(2) by (simp add: deliver_click [OF st])
  then show "step w (Click (self_node d)) = Inr w"
    using commit_settled [OF st] by (simp add: step_def)
qed

theorem backdrop_click_inert_without_light_dismiss_witness:
  "\<exists>w d. session app_controlled [SetShouldLightDismiss (Some False), AncestorSetIsOpen True] = Inr w \<and>
      \<not> lightDismissEnabled w \<and> isOpen w \<and> dialogRef w = Some d \<and>
      (''click'', LightDismiss 0 SetControlledOpen, False) \<notin> set (listeners d) \<and>
      step w (Click (self_node d)) = Inr w"
proof -
  let ?rs = "[SetShouldLightDismiss (Some False), AncestorSetIsOpen True]"
  have "case session app_controlled ?rs of Inl e \<Rightarrow> False
        | Inr w \<Rightarrow> \<not> lightDismissEnabled w \<and> isOpen w"
    by code_simp
  then obtain w where w: "session app_controlled ?rs = Inr w"
    "\<not> lightDismissEnabled w" "isOpen w"
    by (auto dest: InrE)
  from reachable_ref [OF w(1)] obtain d where d: "dialogRef w = Some d" by blast
  from backdrop_click_inert_without_light_dismiss [OF w(1,2) d] w d show ?thesis by blast
qed

text \<open>
  C5, as stated, fails: \<^verbatim>\<open>lightDismiss\<close> looks at the node name of the target, not at
  its identity, so with light dismiss enabled a click on a descendant that is itself a
  \<^verbatim>\<open>dialog\<close> element (node 7 here, nested in the content of the dialog, node 0)
  dismisses the open dialog.
\<close>

theorem nested_dialog_click_dismisses:
  "openAfter app_controlled [AncestorSetIsOpen True] = Some True \<and>
   ElementNode 7 ''DIALOG'' \<noteq> self_node new_dialog \<and>
   openAfter app_controlled [AncestorSetIsOpen True, Click (ElementNode 7 ''DIALOG'')]
     = Some False"
  by code_simp

text \<open>
  C5, amended. A click changes nothing when its target is not an element named
  \<^verbatim>\<open>DIALOG\<close> (every descendant other than a nested \<^verbatim>\<open>dialog\<close> element), or when light
  dismiss is disabled (then for every target, a nested \<^verbatim>\<open>dialog\<close> element included).
\<close>

theorem content_click_inert:
  assumes "session p rs = Inr w" "nodeName t \<noteq> Some ''DIALOG'' \<or> \<not> lightDismissEnabled w"
  shows "step w (Click t) = Inr w"
proof -
  have st: "settled w" using assms(1) by (rule reachable_settled)
  have "perform w (Click t) = Inr w"
    using assms(2) by (auto simp: deliver_click [OF st])
  then show ?thesis
    using commit_settled [OF st] by (simp add: step_def)
qed

theorem content_click_inert_witness:
  "(\<exists>w. session app_controlled [AncestorSetIsOpen True] = Inr w \<and>
      nodeName (ElementNode 7 ''BUTTON'') \<noteq> Some ''DIALOG'' \<and> isOpen w \<and>
      lightDismissEnabled w \<and> step w (Click (ElementNode 7 ''BUTTON'')) = Inr w) \<and>
   (\<exists>w. session app_controlled [SetShouldLightDismiss (Some False), AncestorSetIsOpen True]
        = Inr w \<and>
      nodeName (ElementNode 7 ''DIALOG'') = Some ''DIALOG'' \<and> isOpen w \<and>
      \<not> lightDismissEnabled w \<and> step w (Click (ElementNode 7 ''DIALOG'')) = Inr w)"
proof
  have "case session app_controlled [AncestorSetIsOpen True] of Inl e \<Rightarrow> False
        | Inr w \<Rightarrow> lightDismissEnabled w \<and> isOpen w"
    by code_simp
  then obtain w where w: "session app_controlled [AncestorSetIsOpen True] = Inr w"
    "lightDismissEnabled w" "isOpen w"
    by (auto dest: InrE)
  have n: "nodeName (ElementNode 7 ''BUTTON'') \<noteq> Some ''DIALOG''" by simp
  then have "nodeName (ElementNode 7 ''BUTTON'') \<noteq> Some ''DIALOG'' \<or> \<not> lightDismissEnabled w"
    by (rule disjI1)
  from content_click_inert [OF w(1) this] w n
  show "\<exists>w. session app_controlled [AncestorSetIsOpen True] = Inr w \<and>
      nodeName (ElementNode 7 ''BUTTON'') \<noteq> Some ''DIALOG'' \<and> isOpen w \<and>
      lightDismissEnabled w \<and> step w (Click (ElementNode 7 ''BUTTON'')) = Inr w"
    by blast
next
  let ?rs = "[SetShouldLightDismiss (Some False), AncestorSetIsOpen True]"
  have "case session app_controlled ?rs of Inl e \<Rightarrow> False
        | Inr w \<Rightarrow> \<not> lightDismissEnabled w \<and> isOpen w"
    by code_simp
  then obtain w where w: "session app_controlled ?rs = Inr w"
    "\<not> lightDismissEnabled w" "isOpen w"
    by (auto dest: InrE)
  have n: "nodeName (ElementNode 7 ''DIALOG'') = Some ''DIALOG''" by simp
  from w(2) have "nodeName (ElementNode 7 ''DIALOG'') \<noteq> Some ''DIALOG'' \<or> \<not> lightDismissEnabled w"
    by (rule disjI2)
  from content_click_inert [OF w(1) this] w n
  show "\<exists>w. session app_controlled ?rs = Inr w \<and>
      nodeName (ElementNode 7 ''DIALOG'') = Some ''DIALOG'' \<and> isOpen w \<and>
      \<not> lightDismissEnabled w \<and> step w (Click (ElementNode 7 ''DIALOG'')) = Inr w"
    by blast
qed



text \<open>
  C7. \<^verbatim>\<open>showModal()\<close> of the ref does not touch the element: it only sets \<^verbatim>\<open>isOpen\<close> to
  true. The commit that follows never fails; it calls the native \<^verbatim>\<open>showModal()\<close> once
  and leaves the element open when \<^verbatim>\<open>isOpen\<close> was false, and makes no call and leaves
  the element as it was when \<^verbatim>\<open>isOpen\<close> was true.
\<close>

theorem ref_showModal_only_requests:
  assumes "session p rs = Inr w"
  shows "dialogRef (ref_showModal w) = dialogRef w \<and> isOpen (ref_showModal w) \<and>
     (\<exists>w'. step w RefShowModal = Inr w' \<and> isOpen w' \<and>
        nativeOpen w' = (if isOpen w then nativeOpen w else Some True) \<and>
        showModalCalls w' = (if isOpen w then showModalCalls w else Suc (showModalCalls w)))"
proof (intro conjI)
  have s: "settled w" using assms by (rule reachable_settled)
  then obtain d where d: "dialogRef w = Some d"
    by (auto elim: settledE)
  show "dialogRef (ref_showModal w) = dialogRef w" by (rule ref_showModal_ref)
  show "isOpen (ref_showModal w)"
    by (simp add: ref_settled [OF s] isOpen_call_setter)
  from request_state [OF s d(1), of True] obtain w' d' where
    c: "commit (call_setter w (setIsOpen w, True)) = Inr w'" "isOpen w' = True"
      "dialogRef w' = Some d'" "dlg_open d' = (if isOpen w = True then dlg_open d else True)"
      "calls d' = calls (synced (isOpen w) True d)"
    by blast
  have "count_list (calls d') ShowModalCall =
      (if isOpen w then count_list (calls d) ShowModalCall
       else Suc (count_list (calls d) ShowModalCall))"
    using c(5) by (cases "isOpen w") (simp_all add: synced_facts)
  then show "\<exists>w'. step w RefShowModal = Inr w' \<and> isOpen w' \<and>
        nativeOpen w' = (if isOpen w then nativeOpen w else Some True) \<and>
        showModalCalls w' = (if isOpen w then showModalCalls w else Suc (showModalCalls w))"
    using c d by (simp add: step_def ref_settled [OF s] nativeOpen_def showModalCalls_def)
qed

theorem ref_showModal_only_requests_witness:
  "\<exists>w. session app_uncontrolled [] = Inr w \<and> \<not> isOpen w \<and>
      dialogRef (ref_showModal w) = dialogRef w \<and> isOpen (ref_showModal w) \<and>
      (\<exists>w'. step w RefShowModal = Inr w' \<and> isOpen w' \<and> nativeOpen w' = Some True \<and>
         showModalCalls w' = Suc (showModalCalls w))"
proof -
  have "case session app_uncontrolled [] of Inl e \<Rightarrow> False | Inr w \<Rightarrow> \<not> isOpen w"
    by code_simp
  then obtain w where w: "session app_uncontrolled [] = Inr w" "\<not> isOpen w"
    by (auto dest: InrE)
  from ref_showModal_only_requests [OF w(1)] w show ?thesis by auto
qed

text \<open>
  C8. \<^verbatim>\<open>isOpen()\<close> of the ref returns the component's \<^verbatim>\<open>isOpen\<close>: the state of the
  ancestor passed as prop in controlled mode, \<^verbatim>\<open>uncontrolledOpen\<close> otherwise. It does
  not read the element: the result is the same whatever \<^verbatim>\<open>dialogRef.current\<close> holds.
\<close>

theorem ref_isOpen_returns_state:
  assumes "session p rs = Inr w"
  shows "ref_isOpen w = Some (isOpen w) \<and>
     isOpen w = (if controlled w then ancestorOpen w else uncontrolledOpen w) \<and>
     ref_isOpen (w\<lparr>dialogRef := h\<rparr>) = ref_isOpen w"
proof -
  have "settled w" using assms by (rule reachable_settled)
  then have "handle w = Some (isOpen w, setIsOpen w)" by (auto elim: settledE)
  then show ?thesis
    by (simp add: ref_isOpen_def isOpen_def controlledOpen_def)
qed

theorem ref_isOpen_returns_state_witness:
  "\<exists>w. session app_uncontrolled [RefShowModal] = Inr w \<and>
      ref_isOpen w = Some True \<and> uncontrolledOpen w \<and> \<not> controlled w \<and>
      ref_isOpen (w\<lparr>dialogRef := None\<rparr>) = Some True"
proof -
  have "case session app_uncontrolled [RefShowModal] of Inl e \<Rightarrow> False
        | Inr w \<Rightarrow> uncontrolledOpen w \<and> \<not> controlled w"
    by code_simp
  then obtain w where w: "session app_uncontrolled [RefShowModal] = Inr w"
    "uncontrolledOpen w" "\<not> controlled w"
    by (auto dest: InrE)
  from ref_isOpen_returns_state [OF w(1), of None] w show ?thesis by auto
qed

text \<open>
  C9. Unmounting a mounted instance succeeds, calls the native \<^verbatim>\<open>close()\<close> once and
  leaves the element closed, whatever \<^verbatim>\<open>isOpen\<close> is, in particular when it is still
  true.
\<close>

theorem unmount_closes:
  assumes "session p rs = Inr w"
  shows "\<exists>w'. unmount w = Inr w' \<and> closeCalls w' = Suc (closeCalls w) \<and>
     nativeOpen w' = Some False"
proof -
  have "settled w" using assms by (rule reachable_settled)
  then obtain d g where d: "dialogRef w = Some d"
    "listenerDeps w = Some (g, lightDismissEnabled w, setIsOpen w)"
    "syncDeps w = Some (isOpen w)"
    "filter owned (listeners d) = own_listeners g (lightDismissEnabled w) (setIsOpen w)"
    by (auto elim: settledE)
  have "filter owned (listeners (dialog_close d)) =
      own_listeners g (lightDismissEnabled w) (setIsOpen w)"
    using d(4) by simp
  from cleanup_listeners [OF this] obtain d' where
    d': "listenerCleanup g (lightDismissEnabled w) (setIsOpen w) (Some (dialog_close d))
           = Inr (Some d')"
      "dlg_open d' = dlg_open (dialog_close d)" "calls d' = calls (dialog_close d)"
    by blast
  have "unmount w = Inr (w\<lparr>dialogRef := Some d', syncDeps := None, listenerDeps := None,
      handle := None\<rparr>)"
    using d d'(1) by (simp add: unmount_def)
  then show ?thesis
    using d(1) d'(2,3) by (simp add: closeCalls_def nativeOpen_def)
qed

theorem unmount_closes_witness:
  "\<exists>w. session (app_controlled\<lparr>p_isOpen := Some True\<rparr>) [] = Inr w \<and> isOpen w \<and>
      nativeOpen w = Some True \<and>
      (\<exists>w'. unmount w = Inr w' \<and> closeCalls w' = Suc (closeCalls w) \<and>
         nativeOpen w' = Some False)"
proof -
  have "case session (app_controlled\<lparr>p_isOpen := Some True\<rparr>) [] of Inl e \<Rightarrow> False
        | Inr w \<Rightarrow> isOpen w \<and> nativeOpen w = Some True"
    by code_simp
  then obtain w where w: "session (app_controlled\<lparr>p_isOpen := Some True\<rparr>) [] = Inr w"
    "isOpen w" "nativeOpen w = Some True"
    by (auto dest: InrE)
  from unmount_closes [OF w(1)] w show ?thesis by auto
qed

text \<open>
  C10. Reading \<^verbatim>\<open>open\<close> of a null handle, or calling a method on it, throws. The
  component never does either: with a null \<^verbatim>\<open>dialogRef.current\<close>, opening safely, both
  effects and their cleanups return without a call and without an error, the listener
  operations of the ref change nothing, and every request with its commit, and
  unmounting, succeed and leave the handle null.
\<close>

theorem null_handle_total:
  "read_open None = Inl TypeError \<and> call_method m None = Inl TypeError \<and>
   safelyOpenDialogAsModal None = Inr None \<and> syncEffect b None = Inr None \<and>
   syncCleanup None = Inr None \<and> listenerEffect g l s None = Inr None \<and>
   listenerCleanup g l s None = Inr None \<and>
   ref_addEventListener name cb options (w\<lparr>dialogRef := None\<rparr>) = Inr (w\<lparr>dialogRef := None\<rparr>) \<and>
   ref_removeEventListener name cb options (w\<lparr>dialogRef := None\<rparr>)
     = Inr (w\<lparr>dialogRef := None\<rparr>) \<and>
   (\<exists>w'. step (w\<lparr>dialogRef := None\<rparr>) r = Inr w' \<and> dialogRef w' = None) \<and>
   (\<exists>w'. unmount (w\<lparr>dialogRef := None\<rparr>) = Inr w' \<and> dialogRef w' = None)"
proof -
  have "read_open None = Inl TypeError" "call_method m None = Inl TypeError"
    by (simp_all add: read_open_def call_method_def)
  moreover have
    "ref_addEventListener name cb options (w\<lparr>dialogRef := None\<rparr>) = Inr (w\<lparr>dialogRef := None\<rparr>)"
    "ref_removeEventListener name cb options (w\<lparr>dialogRef := None\<rparr>)
       = Inr (w\<lparr>dialogRef := None\<rparr>)"
    by (simp_all add: ref_addEventListener_def ref_removeEventListener_def
        split: option.splits)
  moreover have "\<exists>w'. step (w\<lparr>dialogRef := None\<rparr>) r = Inr w' \<and> dialogRef w' = None"
    by (rule step_null) simp
  moreover have "\<exists>w'. unmount (w\<lparr>dialogRef := None\<rparr>) = Inr w' \<and> dialogRef w' = None"
    by (rule unmount_null) simp
  ultimately show ?thesis by simp
qed

end
